theory Spec2Isabelle
  imports Main
begin

section \<open>JavaScript values\<close>

text \<open>
  A JavaScript string is the list of its UTF-16 code units, so that \<open>length\<close> is
  the \<open>.length\<close> that the validator's \<open>min\<close>/\<open>max\<close> rules read and every character of
  the seed file can be written. \<open>js\<close> embeds an ASCII literal.

  Numbers are mathematical integers. The program only ever holds integral numbers in the
  places modelled here (seed ids, the counter, results of \<open>parseInt\<close>); the model is exact
  as long as they stay below \<open>2^53\<close>, where a JavaScript number stops being able to tell
  neighbouring integers apart. \<open>NaN\<close>, the one non-integral number the program can
  produce, is \<open>None\<close> in the result of \<open>parseInt\<close>. An array is a list, with no bound on
  its length.
\<close>

type_synonym jstring = "nat list"

definition js :: "string \<Rightarrow> jstring" where
  "js s = map of_char s"

datatype json =
    JNull
  | JBool bool
  | JNum int
  | JStr jstring
  | JArr "json list"
  | JObj "(jstring \<times> json) list"

text \<open>
  The parsed body of a POST request: the properties of a JSON object in their order.
  A property that is absent reads as \<open>undefined\<close>, which is \<open>None\<close>.
\<close>

type_synonym payload = "(jstring \<times> json) list"

definition property :: "payload \<Rightarrow> jstring \<Rightarrow> json option" where
  "property p k = map_of p k"

section \<open>The collection and its counter (routes/users.js)\<close>

text \<open>
  An element of the \<open>users\<close> array. The seed file gives every record the five
  properties; a created record has them all too, with \<open>undefined\<close> (\<open>None\<close>) where the
  payload had none.
\<close>

record user =
  user_id :: int
  first_name :: "json option"
  last_name :: "json option"
  city :: "json option"
  country :: "json option"

definition seed_user :: "int \<Rightarrow> jstring \<Rightarrow> jstring \<Rightarrow> jstring \<Rightarrow> jstring \<Rightarrow> user" where
  "seed_user i f l c n =
     \<lparr>user_id = i, first_name = Some (JStr f), last_name = Some (JStr l),
      city = Some (JStr c), country = Some (JStr n)\<rparr>"

text \<open>\<open>db/users.json\<close>; the two letters outside ASCII are given by their code units.\<close>

definition initUserCollection :: "user list" where
  "initUserCollection =
    [seed_user 1 (js ''Guillaume'') (js ''Potapczuk'') (js ''Dopang'') (js ''Indonesia''),
     seed_user 2 (js ''Torre'') (js ''Burnell'') (js ''Shiqiao'') (js ''China''),
     seed_user 3 (js ''Donalt'') (js ''Giannoni'') (js ''General Elizardo Aquino'') (js ''Paraguay''),
     seed_user 4 (js ''Jade'') (js ''Warsap'') (js ''Fuhe'') (js ''China''),
     seed_user 5 (js ''Violet'') (js ''Hinzer'') (js ''Bondo'')
       (js ''Democratic Republic of the Congo''),
     seed_user 6 (js ''Eleanore'') (js ''Leiden'') (js ''El Porvenir'') (js ''Honduras''),
     seed_user 7 (js ''Andris'') (js ''Bysouth'') (js ''Moss'') (js ''Norway''),
     seed_user 8 (js ''Hilary'') (js ''Speenden'') (js ''R'' @ [257] @ js ''mhormoz'') (js ''Iran''),
     seed_user 9 (js ''Albertine'') (js ''Courage'') (js ''Devon'') (js ''Canada''),
     seed_user 10 (js ''Aubert'') (js ''Favill'') (js ''Murfreesboro'') (js ''United States''),
     seed_user 11 (js ''Rik'') (js ''Rushforth'') (js ''Sidokumpul'') (js ''Indonesia''),
     seed_user 12 (js ''Nataline'') (js ''Pickvance'') (js ''Arax'' @ [225]) (js ''Brazil''),
     seed_user 13 (js ''Irina'') (js ''Trounce'') (js ''Kardzhin'') (js ''Russia''),
     seed_user 14 (js ''Bowie'') (js ''Ranklin'') (js ''Jinhe'') (js ''China'')]"

text \<open>
  The module's mutable state: the \<open>users\<close> array of the in-memory database and the
  variable \<open>uuid\<close>.
\<close>

record db =
  users :: "user list"
  uuid :: int

text \<open>
  \<open>db.defaults({ users: initUserCollection }).write()\<close> and
  \<open>let uuid = initUserCollection.length + 1\<close>, for any seed file.
\<close>

definition init_db :: "user list \<Rightarrow> db" where
  "init_db seed = \<lparr>users = seed, uuid = int (length seed) + 1\<rparr>"

section \<open>The payload schema\<close>

text \<open>
  \<open>Joi.string().min(a).max(b)\<close>, with or without \<open>.required()\<close>, as data.
\<close>

record string_schema =
  min_length :: nat
  max_length :: nat
  required :: bool

definition userPostRequestSchema :: "(jstring \<times> string_schema) list" where
  "userPostRequestSchema =
    [(js ''first_name'', \<lparr>min_length = 3, max_length = 64, required = True\<rparr>),
     (js ''last_name'', \<lparr>min_length = 3, max_length = 64, required = False\<rparr>),
     (js ''city'', \<lparr>min_length = 1, max_length = 64, required = False\<rparr>),
     (js ''country'', \<lparr>min_length = 1, max_length = 64, required = True\<rparr>)]"

text \<open>
  The validation library is a dependency, not part of the repository; its behaviour on
  such a schema is taken from its documentation and kept under its own error codes, so
  that the wording of its messages plays no role:
  \<^item> an absent value fails \<open>any.required\<close> when the key is required and passes otherwise;
  \<^item> a value that is not a string (\<open>null\<close> included) fails \<open>string.base\<close>, no conversion
    to a string is attempted;
  \<^item> the empty string fails \<open>string.empty\<close>;
  \<^item> then the rules run in the order they were chained: \<open>min\<close>, \<open>max\<close>, on \<open>.length\<close>;
  \<^item> the keys of the schema are validated in the order they were declared and the first
    failure is the result (\<open>abortEarly\<close>);
  \<^item> after them, a key of the payload that the schema does not declare fails
    \<open>object.unknown\<close> (\<open>allowUnknown\<close> is off unless asked for, and neither the schema
    nor the route asks for it);
  \<^item> a payload that passes is handed on as it is.
\<close>

datatype joi_error =
    any_required jstring
  | string_base jstring
  | string_empty jstring
  | string_min jstring nat
  | string_max jstring nat
  | object_unknown jstring

fun validate_string :: "jstring \<Rightarrow> string_schema \<Rightarrow> json option \<Rightarrow> joi_error option" where
  "validate_string k r None = (if required r then Some (any_required k) else None)"
| "validate_string k r (Some (JStr s)) =
     (if s = [] then Some (string_empty k)
      else if length s < min_length r then Some (string_min k (min_length r))
      else if max_length r < length s then Some (string_max k (max_length r))
      else None)"
| "validate_string k r (Some v) = Some (string_base k)"

fun validate_keys :: "(jstring \<times> string_schema) list \<Rightarrow> payload \<Rightarrow> joi_error option" where
  "validate_keys [] p = None"
| "validate_keys ((k, r) # ks) p =
     (case validate_string k r (property p k) of
        Some e \<Rightarrow> Some e
      | None \<Rightarrow> validate_keys ks p)"

definition unprocessed :: "(jstring \<times> string_schema) list \<Rightarrow> payload \<Rightarrow> jstring list" where
  "unprocessed schema p = filter (\<lambda>k. k \<notin> set (map fst schema)) (map fst p)"

definition joi_validate :: "(jstring \<times> string_schema) list \<Rightarrow> payload \<Rightarrow> joi_error + payload" where
  "joi_validate schema p =
     (case validate_keys schema p of
        Some e \<Rightarrow> Inl e
      | None \<Rightarrow>
          (case unprocessed schema p of
             [] \<Rightarrow> Inr p
           | k # _ \<Rightarrow> Inl (object_unknown k)))"

section \<open>Replies\<close>

text \<open>
  \<open>Boom.badRequest(message)\<close> is the only error the routes raise: status 400 with a
  message, which is either text the route builds or the message of a validation error.
\<close>

datatype message = Text jstring | Validation joi_error

datatype boom = badRequest message

text \<open>What a handler returns: the array, one record, or the object \<open>{ message, id }\<close>.\<close>

datatype reply =
    Users "user list"
  | User user
  | Created jstring int

section \<open>parseInt and the lookup\<close>

text \<open>
  \<open>parseInt(string, 10)\<close>: leading white space is skipped, one sign is read, then the
  longest run of decimal digits; no digit at all gives \<open>NaN\<close>. What follows the digits is
  not looked at.
\<close>

definition is_white_space :: "nat \<Rightarrow> bool" where
  "is_white_space c \<longleftrightarrow>
     c \<in> {9, 10, 11, 12, 13, 32, 160, 5760, 8232, 8233, 8239, 8287, 12288, 65279}
     \<or> (8192 \<le> c \<and> c \<le> 8202)"

definition is_digit :: "nat \<Rightarrow> bool" where
  "is_digit c \<longleftrightarrow> 48 \<le> c \<and> c \<le> 57"

definition digits_value :: "jstring \<Rightarrow> int" where
  "digits_value z = foldl (\<lambda>a c. 10 * a + (int c - 48)) 0 z"

definition parseInt :: "jstring \<Rightarrow> int option" where
  "parseInt string =
     (let s = dropWhile is_white_space string;
          sign = (if take 1 s = js ''-'' then - 1 else 1);
          s' = (if take 1 s = js ''-'' \<or> take 1 s = js ''+'' then drop 1 s else s);
          z = takeWhile is_digit s'
      in if z = [] then None else Some (sign * digits_value z))"

text \<open>
  \<open>db.get("users").find({ id: n }).value()\<close>: the first element whose \<open>id\<close> is the
  number looked for, or \<open>undefined\<close>. An integer \<open>id\<close> is never equal to \<open>NaN\<close>.
\<close>

definition matches_id :: "int option \<Rightarrow> user \<Rightarrow> bool" where
  "matches_id n u = (case n of None \<Rightarrow> False | Some i \<Rightarrow> user_id u = i)"

definition find_by_id :: "int option \<Rightarrow> user list \<Rightarrow> user option" where
  "find_by_id n us = find (matches_id n) us"

section \<open>The three routes\<close>

text \<open>
  Each handler takes the state and gives back its reply with the state it leaves; the
  reads leave it as it was.
\<close>

definition list_users :: "db \<Rightarrow> user list \<times> db" where
  "list_users d = (users d, d)"

definition get_user :: "jstring \<Rightarrow> db \<Rightarrow> (boom + user) \<times> db" where
  "get_user id' d =
     (case find_by_id (parseInt id') (users d) of
        Some user \<Rightarrow> (Inr user, d)
      | None \<Rightarrow> (Inl (badRequest (Text (js ''id '' @ id' @ js '' not found''))), d))"

definition newUser :: "int \<Rightarrow> payload \<Rightarrow> user" where
  "newUser i p =
     \<lparr>user_id = i, first_name = property p (js ''first_name''), last_name = property p (js ''last_name''),
      city = property p (js ''city''), country = property p (js ''country'')\<rparr>"

definition create_user :: "payload \<Rightarrow> db \<Rightarrow> (jstring \<times> int) \<times> db" where
  "create_user p d =
     (let i = uuid d;
          d1 = d\<lparr>uuid := uuid d + 1\<rparr>;
          d2 = d1\<lparr>users := users d1 @ [newUser i p]\<rparr>
      in ((js ''user created'', i), d2))"

text \<open>The POST route: the payload is validated first, a failure is answered with 400.\<close>

definition post_user :: "payload \<Rightarrow> db \<Rightarrow> (boom + jstring \<times> int) \<times> db" where
  "post_user p d =
     (case joi_validate userPostRequestSchema p of
        Inl e \<Rightarrow> (Inl (badRequest (Validation e)), d)
      | Inr v \<Rightarrow> (case create_user v d of (r, d') \<Rightarrow> (Inr r, d')))"

text \<open>Requests and the server's reaction to one, and to a sequence of them.\<close>

datatype request = GET_users | GET_user jstring | POST_user payload

fun serve :: "request \<Rightarrow> db \<Rightarrow> (boom + reply) \<times> db" where
  "serve GET_users d = (case list_users d of (us, d') \<Rightarrow> (Inr (Users us), d'))"
| "serve (GET_user i) d = (case get_user i d of (r, d') \<Rightarrow> (map_sum (\<lambda>e. e) User r, d'))"
| "serve (POST_user p) d =
     (case post_user p d of (r, d') \<Rightarrow> (map_sum (\<lambda>e. e) (\<lambda>(m, i). Created m i) r, d'))"

fun serve_all :: "request list \<Rightarrow> db \<Rightarrow> (boom + reply) list \<times> db" where
  "serve_all [] d = ([], d)"
| "serve_all (q # qs) d =
     (case serve q d of (r, d') \<Rightarrow> (case serve_all qs d' of (rs, d'') \<Rightarrow> (r # rs, d'')))"

text \<open>
  The body of a reply that carries a record: serialisation to JSON leaves out a property
  whose value is \<open>undefined\<close>.
\<close>

definition member_of :: "jstring \<Rightarrow> json option \<Rightarrow> (jstring \<times> json) list" where
  "member_of k v = (case v of None \<Rightarrow> [] | Some x \<Rightarrow> [(k, x)])"

definition json_of_user :: "user \<Rightarrow> (jstring \<times> json) list" where
  "json_of_user u =
     [(js ''id'', JNum (user_id u))] @ member_of (js ''first_name'') (first_name u)
       @ member_of (js ''last_name'') (last_name u) @ member_of (js ''city'') (city u)
       @ member_of (js ''country'') (country u)"

section \<open>Sequences of requests\<close>

text \<open>
  The payloads of the requests of a sequence that create a user (the POST requests whose
  payload passes validation), the ids the replies to a sequence announce, and the records
  that creating from a list of payloads gives when the counter stands at \<open>i\<close>.
\<close>

fun accepted :: "request list \<Rightarrow> payload list" where
  "accepted [] = []"
| "accepted (POST_user p # qs) =
     (case joi_validate userPostRequestSchema p of
        Inl e \<Rightarrow> accepted qs
      | Inr v \<Rightarrow> v # accepted qs)"
| "accepted (q # qs) = accepted qs"

fun created_ids :: "(boom + reply) list \<Rightarrow> int list" where
  "created_ids [] = []"
| "created_ids (Inr (Created m i) # rs) = i # created_ids rs"
| "created_ids (r # rs) = created_ids rs"

fun records_from :: "int \<Rightarrow> payload list \<Rightarrow> user list" where
  "records_from i [] = []"
| "records_from i (p # ps) = newUser i p # records_from (i + 1) ps"

section \<open>The rule set as the specification words it\<close>

text \<open>
  A value is a string of length \<open>a\<close> to \<open>b\<close>; the four rules on a payload; the keys that
  carry a rule.
\<close>

definition string_of_length :: "nat \<Rightarrow> nat \<Rightarrow> json option \<Rightarrow> bool" where
  "string_of_length a b v =
     (case v of Some (JStr s) \<Rightarrow> a \<le> length s \<and> length s \<le> b | _ \<Rightarrow> False)"

definition rules_hold :: "payload \<Rightarrow> bool" where
  "rules_hold p \<longleftrightarrow>
     string_of_length 3 64 (property p (js ''first_name'')) \<and>
     (property p (js ''last_name'') = None \<or> string_of_length 3 64 (property p (js ''last_name''))) \<and>
     (property p (js ''city'') = None \<or> string_of_length 1 64 (property p (js ''city''))) \<and>
     string_of_length 1 64 (property p (js ''country''))"

definition known_keys :: "jstring set" where
  "known_keys = {js ''first_name'', js ''last_name'', js ''city'', js ''country''}"

section \<open>The payloads of the specification's scenarios\<close>

definition Ada_UK :: payload where
  "Ada_UK = [(js ''first_name'', JStr (js ''Ada'')), (js ''country'', JStr (js ''UK''))]"

definition Al_US :: payload where
  "Al_US = [(js ''first_name'', JStr (js ''Al'')), (js ''country'', JStr (js ''US''))]"

section \<open>Decimal numerals\<close>

text \<open>
  Two yardsticks for what \<open>parseInt\<close> should read, neither of which is used by the model
  of \<open>parseInt\<close>: the decimal numeral of a natural number, as the path of a request
  writes an id, and the number that a string of digits spells, digit by digit with its
  place value.
\<close>

fun decimal :: "nat \<Rightarrow> jstring" where
  "decimal n = (if n < 10 then [48 + n] else decimal (n div 10) @ [48 + n mod 10])"

fun spelled :: "jstring \<Rightarrow> int" where
  "spelled [] = 0"
| "spelled (c # cs) = (int c - 48) * 10 ^ length cs + spelled cs"

declare decimal.simps [simp del]

section \<open>Facts about the routes\<close>

lemma joi_validate_Inr: "joi_validate schema p = Inr v \<Longrightarrow> v = p"
  by (auto simp: joi_validate_def split: option.splits list.splits)

lemma post_user_valid:
  "joi_validate userPostRequestSchema p = Inr v \<Longrightarrow>
   post_user p d =
     (Inr (js ''user created'', uuid d),
      \<lparr>users = users d @ [newUser (uuid d) p], uuid = uuid d + 1\<rparr>)"
  by (frule joi_validate_Inr) (simp add: post_user_def create_user_def Let_def)

lemma post_user_invalid:
  "joi_validate userPostRequestSchema p = Inl e \<Longrightarrow>
   post_user p d = (Inl (badRequest (Validation e)), d)"
  by (simp add: post_user_def)

lemma get_user_state: "snd (get_user s d) = d"
  by (simp add: get_user_def split: option.splits)

lemma created_ids_get: "created_ids (map_sum (\<lambda>e. e) User r # rs) = created_ids rs"
  by (cases r) simp_all

lemma serve_all_shape:
  "serve_all qs d = (rs, d') \<Longrightarrow>
   users d' = users d @ records_from (uuid d) (accepted qs) \<and>
   uuid d' = uuid d + int (length (accepted qs)) \<and>
   created_ids rs = map (\<lambda>k. uuid d + int k) [0..<length (accepted qs)]"
proof (induction qs arbitrary: d rs d')
  case Nil
  then show ?case by simp
next
  case (Cons q qs)
  obtain r d1 where q: "serve q d = (r, d1)" by (cases "serve q d")
  obtain rs1 d2 where qs: "serve_all qs d1 = (rs1, d2)" by (cases "serve_all qs d1")
  from Cons.prems q qs have eq: "rs = r # rs1" "d' = d2" by simp_all
  note ih = Cons.IH [OF qs]
  show ?case
  proof (cases q)
    case GET_users
    with q have "d1 = d" "r = Inr (Users (users d))" by (auto simp: list_users_def)
    with ih eq GET_users show ?thesis by simp
  next
    case (GET_user s)
    with q have "d1 = d" "created_ids (r # rs1) = created_ids rs1"
      using get_user_state [of s d] by (auto simp: created_ids_get split: prod.splits)
    with ih eq GET_user show ?thesis by simp
  next
    case (POST_user p)
    show ?thesis
    proof (cases "joi_validate userPostRequestSchema p")
      case (Inl e)
      with q POST_user have "d1 = d" "r = Inl (badRequest (Validation e))"
        by (auto simp: post_user_invalid)
      with ih eq POST_user Inl show ?thesis by simp
    next
      case (Inr v)
      from Inr have v: "v = p" by (rule joi_validate_Inr)
      from q POST_user post_user_valid [OF Inr, of d]
      have r: "r = Inr (Created (js ''user created'') (uuid d))"
        and d1: "d1 = \<lparr>users = users d @ [newUser (uuid d) p], uuid = uuid d + 1\<rparr>"
        by auto
      have m: "map (\<lambda>k. uuid d + int k) [0..<Suc n] =
          uuid d # map (\<lambda>k. uuid d + 1 + int k) [0..<n]" for n
        by (simp add: upt_conv_Cons map_Suc_upt [symmetric] del: upt_Suc)
      from ih eq POST_user Inr v r d1 show ?thesis
        by (simp add: m del: upt_Suc)
    qed
  qed
qed

lemma serve_all_unchanged:
  assumes "accepted qs = []"
  shows "snd (serve_all qs d) = d"
proof -
  obtain rs d' where e: "serve_all qs d = (rs, d')" by (cases "serve_all qs d")
  from serve_all_shape [OF e] assms have "users d' = users d" "uuid d' = uuid d" by simp_all
  then have "d' = d" by simp
  with e show ?thesis by simp
qed

lemma serve_uuid: "uuid (snd (serve q d)) = uuid d \<or> uuid (snd (serve q d)) = uuid d + 1"
proof (cases q)
  case GET_users
  then show ?thesis by (simp add: list_users_def)
next
  case (GET_user s)
  then show ?thesis using get_user_state [of s d] by (cases "get_user s d") simp
next
  case (POST_user p)
  then show ?thesis
    by (cases "joi_validate userPostRequestSchema p")
      (simp_all add: post_user_invalid post_user_valid)
qed

lemma user_id_records_from:
  "k < length ps \<Longrightarrow> user_id (records_from i ps ! k) = i + int k"
proof (induction ps arbitrary: i k)
  case Nil
  then show ?case by simp
next
  case (Cons p ps)
  then show ?case by (cases k) (simp_all add: newUser_def)
qed

section \<open>Facts about the schema\<close>

lemma validate_string_None:
  "validate_string k r v = None \<longleftrightarrow>
     (v = None \<and> \<not> required r) \<or>
     (\<exists>s. v = Some (JStr s) \<and> s \<noteq> [] \<and> min_length r \<le> length s \<and> length s \<le> max_length r)"
proof (cases v)
  case None
  then show ?thesis by simp
next
  case (Some x)
  then show ?thesis by (cases x) auto
qed

lemma validate_keys_rules: "validate_keys userPostRequestSchema p = None \<longleftrightarrow> rules_hold p"
proof -
  have one: "(case validate_string k r v of None \<Rightarrow> e | Some x \<Rightarrow> Some x) = None \<longleftrightarrow>
      validate_string k r v = None \<and> e = None" for k r v and e :: "joi_error option"
    by (cases "validate_string k r v") simp_all
  have req: "validate_string k \<lparr>min_length = a, max_length = b, required = True\<rparr> v = None \<longleftrightarrow>
      string_of_length a b v" if "0 < a" for k a b v
    using that unfolding validate_string_None string_of_length_def
    by (auto split: option.splits json.splits)
  have opt: "validate_string k \<lparr>min_length = a, max_length = b, required = False\<rparr> v = None \<longleftrightarrow>
      v = None \<or> string_of_length a b v" if "0 < a" for k a b v
    using that unfolding validate_string_None string_of_length_def
    by (auto split: option.splits json.splits)
  show ?thesis
    unfolding userPostRequestSchema_def rules_hold_def
    by (simp add: one req opt)
qed

lemma schema_keys: "set (map fst userPostRequestSchema) = known_keys"
  by (simp add: userPostRequestSchema_def known_keys_def)

lemma unprocessed_Nil: "unprocessed userPostRequestSchema p = [] \<longleftrightarrow> fst ` set p \<subseteq> known_keys"
  unfolding unprocessed_def schema_keys [symmetric] by (auto simp: filter_empty_conv)

lemma unprocessed_Cons:
  "unprocessed userPostRequestSchema p = k # ks \<Longrightarrow> k \<in> fst ` set p \<and> k \<notin> known_keys"
proof -
  assume "unprocessed userPostRequestSchema p = k # ks"
  then have "k \<in> set (unprocessed userPostRequestSchema p)" by simp
  then show ?thesis unfolding unprocessed_def schema_keys by auto
qed

lemma joi_validate_accepts:
  "joi_validate userPostRequestSchema p = Inr p \<longleftrightarrow> rules_hold p \<and> fst ` set p \<subseteq> known_keys"
  unfolding joi_validate_def validate_keys_rules [symmetric] unprocessed_Nil [symmetric]
  by (auto split: option.splits list.splits)

lemma joi_validate_first_error:
  "validate_string (js ''first_name'') \<lparr>min_length = 3, max_length = 64, required = True\<rparr>
     (property p (js ''first_name'')) = Some e \<Longrightarrow>
   joi_validate userPostRequestSchema p = Inl e"
  by (simp add: joi_validate_def userPostRequestSchema_def)

section \<open>The scenarios, evaluated\<close>

lemma Ada_UK_valid: "joi_validate userPostRequestSchema Ada_UK = Inr Ada_UK"
  by (simp add: joi_validate_def userPostRequestSchema_def property_def unprocessed_def
      Ada_UK_def js_def)

lemma Al_US_invalid:
  "joi_validate userPostRequestSchema Al_US = Inl (string_min (js ''first_name'') 3)"
  by (simp add: joi_validate_def userPostRequestSchema_def property_def Al_US_def js_def)

lemma length_seed: "length initUserCollection = 14"
  by (simp add: initUserCollection_def)

lemma scenario_run:
  "serve_all [POST_user Ada_UK, POST_user Al_US, POST_user Ada_UK] (init_db initUserCollection) =
     ([Inr (Created (js ''user created'') 15),
       Inl (badRequest (Validation (string_min (js ''first_name'') 3))),
       Inr (Created (js ''user created'') 16)],
      \<lparr>users = initUserCollection @ [newUser 15 Ada_UK, newUser 16 Ada_UK], uuid = 17\<rparr>)"
  by (simp add: post_user_valid [OF Ada_UK_valid] post_user_invalid [OF Al_US_invalid]
      init_db_def length_seed)

lemma scenario_accepted:
  "accepted [POST_user Ada_UK, POST_user Al_US, POST_user Ada_UK] = [Ada_UK, Ada_UK]"
  by (simp add: Ada_UK_valid Al_US_invalid)

section \<open>Identifiers\<close>

text \<open>
  C1. Start from any seed of \<open>S\<close> records and serve any sequence of requests. The ids that
  the successful creates return are pairwise distinct; the \<open>k\<close>-th of them (counting from
  1) is \<open>S + k\<close>, and it is the id of the record stored at that place after the seed. The
  counter starts at \<open>S + 1\<close>, stands at \<open>S + 1 + N\<close> after \<open>N\<close> creates, and a request
  either leaves it or adds one to it.
\<close>

theorem created_ids_consecutive:
  "serve_all qs (init_db seed) = (rs, d) \<Longrightarrow>
   distinct (created_ids rs) \<and>
   (\<forall>k. 1 \<le> k \<and> k \<le> length (created_ids rs) \<longrightarrow>
      created_ids rs ! (k - 1) = int (length seed) + int k \<and>
      user_id (users d ! (length seed + k - 1)) = int (length seed) + int k) \<and>
   uuid (init_db seed) = int (length seed) + 1 \<and>
   uuid d = int (length seed) + 1 + int (length (created_ids rs)) \<and>
   (uuid (snd (serve q d0)) = uuid d0 \<or> uuid (snd (serve q d0)) = uuid d0 + 1)"
proof -
  assume run: "serve_all qs (init_db seed) = (rs, d)"
  let ?S = "int (length seed)"
  let ?n = "length (accepted qs)"
  from serve_all_shape [OF run]
  have us: "users d = seed @ records_from (?S + 1) (accepted qs)"
    and cnt: "uuid d = ?S + 1 + int ?n"
    and ids: "created_ids rs = map (\<lambda>k. ?S + 1 + int k) [0..<?n]"
    by (simp_all add: init_db_def)
  from ids have len: "length (created_ids rs) = ?n" by simp
  have "inj_on (\<lambda>k. ?S + 1 + int k) (set [0..<?n])" by (simp add: inj_on_def)
  then have dist: "distinct (created_ids rs)" unfolding ids by (simp add: distinct_map)
  have kth: "created_ids rs ! (k - 1) = ?S + int k \<and>
      user_id (users d ! (length seed + k - 1)) = ?S + int k"
    if "1 \<le> k \<and> k \<le> length (created_ids rs)" for k
  proof -
    from that len have k: "k - 1 < ?n" "0 < k" by arith+
    then have a: "created_ids rs ! (k - 1) = ?S + int k" unfolding ids by simp
    from k have "users d ! (length seed + k - 1) = records_from (?S + 1) (accepted qs) ! (k - 1)"
      unfolding us by (simp add: nth_append)
    with k user_id_records_from [of "k - 1" "accepted qs" "?S + 1"]
    have "user_id (users d ! (length seed + k - 1)) = ?S + int k" by simp
    with a show ?thesis by simp
  qed
  from dist kth cnt len serve_uuid [of q d0] show ?thesis by (simp add: init_db_def)
qed

theorem created_ids_consecutive_witness:
  "serve_all [POST_user Ada_UK, POST_user Al_US, POST_user Ada_UK] (init_db initUserCollection) =
     ([Inr (Created (js ''user created'') 15),
       Inl (badRequest (Validation (string_min (js ''first_name'') 3))),
       Inr (Created (js ''user created'') 16)],
      \<lparr>users = initUserCollection @ [newUser 15 Ada_UK, newUser 16 Ada_UK], uuid = 17\<rparr>) \<and>
   distinct [15, 16 :: int] \<and>
   user_id ((initUserCollection @ [newUser 15 Ada_UK, newUser 16 Ada_UK]) ! (14 + 2 - 1)) = 14 + 2 \<and>
   uuid (init_db initUserCollection) = 15"
proof -
  note t = created_ids_consecutive [OF scenario_run, of GET_users "init_db initUserCollection"]
  from t have "distinct [15, 16 :: int]" by simp
  moreover from t [THEN conjunct2, THEN conjunct1, rule_format, of 2]
  have "user_id ((initUserCollection @ [newUser 15 Ada_UK, newUser 16 Ada_UK])
      ! (14 + 2 - 1)) = 14 + 2"
    by (simp add: length_seed)
  moreover from t have "uuid (init_db initUserCollection) = 15" by (simp add: length_seed)
  ultimately show ?thesis using scenario_run by simp
qed

section \<open>Create\<close>

text \<open>
  C7. For a payload that passes the validator, the POST route replies with the message
  \<open>user created\<close> and the id that the counter held; the collection is the old one with
  exactly one record more at its end, which carries that id and the payload's fields, and
  the counter has advanced by one.
\<close>

theorem create_succeeds_on_valid_payload:
  "joi_validate userPostRequestSchema p = Inr v \<Longrightarrow>
   fst (post_user p d) = Inr (js ''user created'', uuid d) \<and>
   users (snd (post_user p d)) = users d @ [newUser (uuid d) p] \<and>
   user_id (newUser (uuid d) p) = uuid d \<and>
   uuid (snd (post_user p d)) = uuid d + 1"
  by (simp add: post_user_valid newUser_def)

theorem create_succeeds_on_valid_payload_witness:
  "joi_validate userPostRequestSchema Ada_UK = Inr Ada_UK \<and>
   fst (post_user Ada_UK (init_db initUserCollection)) = Inr (js ''user created'', 15) \<and>
   users (snd (post_user Ada_UK (init_db initUserCollection))) =
     initUserCollection @ [newUser 15 Ada_UK] \<and>
   uuid (snd (post_user Ada_UK (init_db initUserCollection))) = 16"
  using create_succeeds_on_valid_payload [OF Ada_UK_valid, of "init_db initUserCollection"]
    Ada_UK_valid
  by (simp add: init_db_def length_seed)

section \<open>Reads\<close>

text \<open>
  C8. In every state the list route returns the whole collection and leaves the state as
  it was. After any sequence of requests on a seeded store that collection is the seed, in
  its order, followed by one record for each successful create, in the order of creation.
\<close>

theorem list_returns_all_in_insertion_order:
  "serve_all qs (init_db seed) = (rs, d) \<Longrightarrow>
   list_users d = (seed @ records_from (int (length seed) + 1) (accepted qs), d) \<and>
   list_users d0 = (users d0, d0)"
  using serve_all_shape [of qs "init_db seed" rs d] by (simp add: list_users_def init_db_def)

theorem list_returns_all_in_insertion_order_witness:
  "list_users \<lparr>users = initUserCollection @ [newUser 15 Ada_UK, newUser 16 Ada_UK], uuid = 17\<rparr> =
     (initUserCollection @ [newUser 15 Ada_UK, newUser 16 Ada_UK],
      \<lparr>users = initUserCollection @ [newUser 15 Ada_UK, newUser 16 Ada_UK], uuid = 17\<rparr>)"
  using list_returns_all_in_insertion_order [OF scenario_run]
  by (simp add: scenario_accepted length_seed)

text \<open>
  C9. A list, or a lookup of an id, repeated after any requests among which no create
  succeeded (in particular repeated at once) gives the reply it gave the first time.
\<close>

theorem reads_are_idempotent:
  "accepted qs = [] \<Longrightarrow>
   list_users (snd (serve_all qs (snd (list_users d)))) = list_users d \<and>
   get_user s (snd (serve_all qs (snd (get_user s d)))) = get_user s d \<and>
   list_users (snd (list_users d)) = list_users d \<and>
   get_user s (snd (get_user s d)) = get_user s d"
  by (simp add: serve_all_unchanged get_user_state) (simp add: list_users_def)

theorem reads_are_idempotent_witness:
  "accepted [GET_users, POST_user Al_US] = [] \<and>
   list_users (snd (serve_all [GET_users, POST_user Al_US]
      (snd (list_users (init_db initUserCollection))))) = list_users (init_db initUserCollection) \<and>
   get_user (js ''5'') (snd (serve_all [GET_users, POST_user Al_US]
      (snd (get_user (js ''5'') (init_db initUserCollection))))) =
     get_user (js ''5'') (init_db initUserCollection)"
proof -
  have a: "accepted [GET_users, POST_user Al_US] = []" by (simp add: Al_US_invalid)
  note t = reads_are_idempotent [OF a, of "init_db initUserCollection" "js ''5''"]
  from a t show ?thesis by blast
qed

section \<open>Facts about parseInt and the lookup\<close>

lemma digit_not_white_space: "is_digit c \<Longrightarrow> \<not> is_white_space c"
  by (auto simp: is_digit_def is_white_space_def)

lemma digit_not_sign: "is_digit c \<Longrightarrow> [c] \<noteq> js ''-'' \<and> [c] \<noteq> js ''+''"
  by (auto simp: is_digit_def js_def)

lemma parseInt_digits:
  assumes "z \<noteq> []" and "\<forall>c\<in>set z. is_digit c" and "rest = [] \<or> \<not> is_digit (hd rest)"
  shows "parseInt (z @ rest) = Some (digits_value z)"
proof -
  from assms(1) obtain c z' where z: "z = c # z'" by (cases z) auto
  with assms(2) have c: "is_digit c" by simp
  have ws: "dropWhile is_white_space (z @ rest) = z @ rest"
    using z digit_not_white_space [OF c] by simp
  have t1: "take 1 (z @ rest) = [c]" using z by simp
  from assms(3) have "takeWhile is_digit rest = []" by (cases rest) auto
  with assms(2) have tw: "takeWhile is_digit (z @ rest) = z"
    by (simp add: takeWhile_append2)
  show ?thesis
    unfolding parseInt_def Let_def ws t1 using digit_not_sign [OF c] assms(1)
    by (simp only: tw if_False simp_thms mult_1)
qed

lemma parseInt_not_numeric:
  assumes "\<not> is_digit c" and "\<not> is_white_space c" and "c \<noteq> 45" and "c \<noteq> 43"
  shows "parseInt (c # r) = None"
  using assms by (simp add: parseInt_def js_def Let_def)

lemma find_by_id_None:
  "find_by_id n us = None \<longleftrightarrow> (\<forall>u\<in>set us. n \<noteq> Some (user_id u))"
  by (cases n) (auto simp: find_by_id_def matches_id_def find_None_iff)

lemma find_by_id_NaN: "find_by_id None us = None"
  by (simp add: find_by_id_None)

lemma get_user_found: "find_by_id (parseInt s) (users d) = Some u \<Longrightarrow> get_user s d = (Inr u, d)"
  by (simp add: get_user_def)

lemma get_user_missing:
  "find_by_id (parseInt s) (users d) = None \<Longrightarrow>
   get_user s d = (Inl (badRequest (Text (js ''id '' @ s @ js '' not found''))), d)"
  by (simp add: get_user_def)

lemma seed_ids: "map user_id initUserCollection = [1, 2, 3, 4, 5, 6, 7, 8, 9, 10, 11, 12, 13, 14]"
  by (simp add: initUserCollection_def seed_user_def)

lemma parseInt_999: "parseInt (js ''999'') = Some 999"
  by (simp add: parseInt_def js_def is_white_space_def is_digit_def digits_value_def Let_def)

lemma parseInt_abc: "parseInt (js ''abc'') = None"
  by (simp add: parseInt_def js_def is_white_space_def is_digit_def digits_value_def Let_def)

lemma seed_has_no_999: "\<forall>u\<in>set initUserCollection. Some (999::int) \<noteq> Some (user_id u)"
proof -
  have "999 \<notin> set (map user_id initUserCollection)" unfolding seed_ids by simp
  then show ?thesis by auto
qed

lemma parseInt_15: "parseInt (js ''15'') = Some 15"
  by (simp add: parseInt_def js_def is_white_space_def is_digit_def digits_value_def Let_def)

lemma parseInt_17: "parseInt (js ''17'') = Some 17"
  by (simp add: parseInt_def js_def is_white_space_def is_digit_def digits_value_def Let_def)

section \<open>Lookup by id\<close>

text \<open>
  C4. When the number that \<open>parseInt\<close> reads from the id segment is the id of no record in
  the store, the lookup route answers with the 400 error whose message is \<open>id \<close>, the
  segment as it was requested, and \<open> not found\<close>, and the store is left as it was. On the
  seeded store the segment \<open>999\<close> gives the message \<open>id 999 not found\<close>.
\<close>

theorem get_user_not_found:
  "(\<forall>u\<in>set (users d). parseInt s \<noteq> Some (user_id u)) \<Longrightarrow>
   get_user s d = (Inl (badRequest (Text (js ''id '' @ s @ js '' not found''))), d) \<and>
   get_user (js ''999'') (init_db initUserCollection) =
     (Inl (badRequest (Text (js ''id 999 not found''))), init_db initUserCollection)"
proof -
  assume a: "\<forall>u\<in>set (users d). parseInt s \<noteq> Some (user_id u)"
  have m: "js ''id '' @ js ''999'' @ js '' not found'' = js ''id 999 not found''"
    by (simp add: js_def)
  have "find_by_id (parseInt (js ''999'')) (users (init_db initUserCollection)) = None"
    unfolding find_by_id_None parseInt_999 using seed_has_no_999 by (simp add: init_db_def)
  from get_user_missing [OF this] m
  have "get_user (js ''999'') (init_db initUserCollection) =
     (Inl (badRequest (Text (js ''id 999 not found''))), init_db initUserCollection)"
    by simp
  moreover from a have "find_by_id (parseInt s) (users d) = None" by (simp add: find_by_id_None)
  ultimately show ?thesis by (simp add: get_user_missing)
qed

theorem get_user_not_found_witness:
  "999 \<notin> set (map user_id (users (init_db initUserCollection))) \<and>
   parseInt (js ''999'') = Some 999 \<and>
   get_user (js ''999'') (init_db initUserCollection) =
     (Inl (badRequest (Text (js ''id '' @ js ''999'' @ js '' not found''))),
      init_db initUserCollection)"
proof -
  have n: "999 \<notin> set (map user_id (users (init_db initUserCollection)))"
    by (simp add: init_db_def seed_ids)
  then have h: "\<forall>u\<in>set (users (init_db initUserCollection)).
      parseInt (js ''999'') \<noteq> Some (user_id u)"
    unfolding parseInt_999 by auto
  from get_user_not_found [OF h] n parseInt_999 show ?thesis by blast
qed

text \<open>
  C5. A segment from which \<open>parseInt\<close> reads no number (\<open>NaN\<close>) is answered like an id
  that is not there: the 400 not-found error, the store untouched. Every segment that
  begins with a character that is neither a digit, nor white space, nor a sign is such a
  segment.
\<close>

theorem get_user_malformed_id:
  "parseInt s = None \<Longrightarrow>
   get_user s d = (Inl (badRequest (Text (js ''id '' @ s @ js '' not found''))), d) \<and>
   (\<not> is_digit c \<and> \<not> is_white_space c \<and> c \<noteq> 45 \<and> c \<noteq> 43 \<longrightarrow> parseInt (c # r) = None)"
  by (simp add: get_user_missing find_by_id_NaN parseInt_not_numeric)

theorem get_user_malformed_id_witness:
  "parseInt (js ''abc'') = None \<and>
   get_user (js ''abc'') (init_db initUserCollection) =
     (Inl (badRequest (Text (js ''id abc not found''))), init_db initUserCollection)"
proof -
  have m: "js ''id '' @ js ''abc'' @ js '' not found'' = js ''id abc not found''"
    by (simp add: js_def)
  from get_user_malformed_id [OF parseInt_abc, of "init_db initUserCollection"] parseInt_abc m
  show ?thesis by simp
qed

lemma foldl_digits:
  "foldl (\<lambda>a c. 10 * a + (int c - 48)) a z = a * 10 ^ length z + spelled z"
  by (induction z arbitrary: a) (simp_all add: algebra_simps)

lemma digits_value_spelled: "digits_value z = spelled z"
  by (simp add: digits_value_def foldl_digits)

lemma spelled_snoc: "spelled (z @ [c]) = 10 * spelled z + (int c - 48)"
  by (induction z) (simp_all add: algebra_simps)

lemma decimal_digits: "decimal n \<noteq> [] \<and> (\<forall>c\<in>set (decimal n). is_digit c)"
proof (induction n rule: decimal.induct)
  case (1 n)
  show ?case
  proof (cases "n < 10")
    case True
    then show ?thesis by (simp add: decimal.simps [of n] is_digit_def)
  next
    case False
    have "n mod 10 < 10" by simp
    then have "is_digit (48 + n mod 10)" unfolding is_digit_def by linarith
    with False 1 show ?thesis by (simp add: decimal.simps [of n])
  qed
qed

lemma spelled_decimal: "spelled (decimal n) = int n"
proof (induction n rule: decimal.induct)
  case (1 n)
  show ?case
  proof (cases "n < 10")
    case True
    then show ?thesis by (simp add: decimal.simps [of n])
  next
    case False
    with 1 have "spelled (decimal (n div 10)) = int (n div 10)" by simp
    with False show ?thesis
      by (simp add: decimal.simps [of n] spelled_snoc zdiv_int zmod_int)
  qed
qed

lemma parseInt_spelled:
  assumes "z \<noteq> []" and "\<forall>c\<in>set z. is_digit c" and "rest = [] \<or> \<not> is_digit (hd rest)"
  shows "parseInt (z @ rest) = Some (spelled z)"
  using parseInt_digits [OF assms] by (simp add: digits_value_spelled)

lemma parseInt_decimal:
  "rest = [] \<or> \<not> is_digit (hd rest) \<Longrightarrow> parseInt (decimal n @ rest) = Some (int n)"
  using decimal_digits [of n] parseInt_spelled [of "decimal n" rest]
  by (simp add: spelled_decimal)

lemma find_by_id_first: "find_by_id (Some i) us = find (\<lambda>v. user_id v = i) us"
proof -
  have "matches_id (Some i) = (\<lambda>v. user_id v = i)" by (simp add: fun_eq_iff matches_id_def)
  then show ?thesis by (simp add: find_by_id_def)
qed

lemma find_distinct_id:
  "distinct (map user_id us) \<Longrightarrow> u \<in> set us \<Longrightarrow> find (\<lambda>v. user_id v = user_id u) us = Some u"
  by (induction us) (auto simp: rev_image_eqI)

lemma find_present:
  "u \<in> set us \<Longrightarrow> \<exists>u'. find (\<lambda>v. user_id v = user_id u) us = Some u' \<and> u' \<in> set us"
  by (cases "find (\<lambda>v. user_id v = user_id u) us") (auto simp: find_None_iff find_Some_iff)

lemma get_user_reads:
  "parseInt s = Some i \<Longrightarrow> find (\<lambda>v. user_id v = i) (users d) = Some u \<Longrightarrow>
   get_user s d = (Inr u, d)"
  by (simp add: get_user_def find_by_id_first)

lemma seed_distinct: "distinct (map user_id (users (init_db initUserCollection)))"
  by (simp add: init_db_def seed_ids)

lemma seed_member_5:
  "seed_user 5 (js ''Violet'') (js ''Hinzer'') (js ''Bondo'')
     (js ''Democratic Republic of the Congo'') \<in> set (users (init_db initUserCollection))"
  by (simp add: init_db_def initUserCollection_def)

lemma seed_member_14:
  "seed_user 14 (js ''Bowie'') (js ''Ranklin'') (js ''Jinhe'') (js ''China'')
     \<in> set (users (init_db initUserCollection))"
  by (simp add: init_db_def initUserCollection_def)

text \<open>
  C10. \<open>parseInt\<close> reads a segment that begins with decimal digits as the number those
  digits spell, whatever follows them. So for a segment made of the decimal numeral of a
  number \<open>n\<close> (or of any run of digits that spells \<open>n\<close>) followed by anything that does not
  begin with a digit, when a record has the id \<open>n\<close> the lookup route returns the first
  record with that id, which is that record when ids are distinct, and not the not-found
  error: \<open>5abc\<close> and \<open>5.9\<close> both return the record with id 5.
\<close>

theorem get_user_numeric_prefix:
  "rest = [] \<or> \<not> is_digit (hd rest) \<Longrightarrow>
   parseInt (decimal n @ rest) = Some (int n) \<and>
   (u \<in> set (users d) \<and> user_id u = int n \<longrightarrow>
      (\<exists>u'. get_user (decimal n @ rest) d = (Inr u', d) \<and> u' \<in> set (users d) \<and>
         find (\<lambda>v. user_id v = int n) (users d) = Some u')) \<and>
   (u \<in> set (users d) \<and> user_id u = int n \<and> distinct (map user_id (users d)) \<longrightarrow>
      get_user (decimal n @ rest) d = (Inr u, d)) \<and>
   (z \<noteq> [] \<and> (\<forall>c\<in>set z. is_digit c) \<longrightarrow>
      parseInt (z @ rest) = Some (spelled z) \<and>
      (u \<in> set (users d) \<and> user_id u = spelled z \<longrightarrow>
         (\<exists>u'. get_user (z @ rest) d = (Inr u', d) \<and> u' \<in> set (users d) \<and>
            find (\<lambda>v. user_id v = spelled z) (users d) = Some u')) \<and>
      (u \<in> set (users d) \<and> user_id u = spelled z \<and> distinct (map user_id (users d)) \<longrightarrow>
         get_user (z @ rest) d = (Inr u, d)))"
proof -
  assume r: "rest = [] \<or> \<not> is_digit (hd rest)"
  have first: "\<exists>u'. get_user s d = (Inr u', d) \<and> u' \<in> set (users d) \<and>
      find (\<lambda>v. user_id v = i) (users d) = Some u'"
    if "parseInt s = Some i" "u \<in> set (users d) \<and> user_id u = i" for s i
  proof -
    from that(2) find_present [of u "users d"]
    obtain u' where f: "find (\<lambda>v. user_id v = i) (users d) = Some u'" "u' \<in> set (users d)"
      by auto
    from get_user_reads [OF that(1) f(1)] f show ?thesis by simp
  qed
  have only: "get_user s d = (Inr u, d)"
    if "parseInt s = Some i" "u \<in> set (users d) \<and> user_id u = i \<and> distinct (map user_id (users d))"
    for s i
  proof -
    from that(2) find_distinct_id [of "users d" u]
    have "find (\<lambda>v. user_id v = i) (users d) = Some u" by auto
    from get_user_reads [OF that(1) this] show ?thesis .
  qed
  note pd = parseInt_decimal [OF r, of n]
  have pz: "parseInt (z @ rest) = Some (spelled z)" if "z \<noteq> [] \<and> (\<forall>c\<in>set z. is_digit c)"
    using that r by (simp add: parseInt_spelled)
  from pd first [OF pd] only [OF pd] pz first only show ?thesis by blast
qed

theorem get_user_numeric_prefix_witness:
  "get_user (js ''5abc'') (init_db initUserCollection) =
     (Inr (seed_user 5 (js ''Violet'') (js ''Hinzer'') (js ''Bondo'')
        (js ''Democratic Republic of the Congo'')), init_db initUserCollection) \<and>
   get_user (js ''5.9'') (init_db initUserCollection) =
     (Inr (seed_user 5 (js ''Violet'') (js ''Hinzer'') (js ''Bondo'')
        (js ''Democratic Republic of the Congo'')), init_db initUserCollection) \<and>
   get_user (js ''14th'') (init_db initUserCollection) =
     (Inr (seed_user 14 (js ''Bowie'') (js ''Ranklin'') (js ''Jinhe'') (js ''China'')),
      init_db initUserCollection) \<and>
   get_user (js ''005x'') (init_db initUserCollection) =
     (Inr (seed_user 5 (js ''Violet'') (js ''Hinzer'') (js ''Bondo'')
        (js ''Democratic Republic of the Congo'')), init_db initUserCollection) \<and>
   parseInt (js ''5abc'') = Some 5 \<and> parseInt (js ''5.9'') = Some 5 \<and>
   parseInt (js ''14th'') = Some 14 \<and> parseInt (js ''005x'') = Some 5"
proof -
  let ?d = "init_db initUserCollection"
  let ?u5 = "seed_user 5 (js ''Violet'') (js ''Hinzer'') (js ''Bondo'')
     (js ''Democratic Republic of the Congo'')"
  let ?u14 = "seed_user 14 (js ''Bowie'') (js ''Ranklin'') (js ''Jinhe'') (js ''China'')"
  have r1: "js ''abc'' = [] \<or> \<not> is_digit (hd (js ''abc''))"
    and r2: "js ''.9'' = [] \<or> \<not> is_digit (hd (js ''.9''))"
    and r3: "js ''th'' = [] \<or> \<not> is_digit (hd (js ''th''))"
    and r4: "js ''x'' = [] \<or> \<not> is_digit (hd (js ''x''))"
    by (simp_all add: js_def is_digit_def)
  have d5: "decimal 5 = js ''5''" by (subst decimal.simps) (simp add: js_def)
  have d1: "decimal (Suc 0) = [49]" by (subst decimal.simps) simp
  have d14: "decimal 14 = js ''14''" by (subst decimal.simps) (simp add: d1 js_def)
  have s: "decimal 5 @ js ''abc'' = js ''5abc''" "decimal 5 @ js ''.9'' = js ''5.9''"
    "decimal 14 @ js ''th'' = js ''14th''" "js ''005'' @ js ''x'' = js ''005x''"
    unfolding d5 d14 by (simp_all add: js_def)
  have z: "js ''005'' \<noteq> [] \<and> (\<forall>c\<in>set (js ''005''). is_digit c)"
    by (simp add: js_def is_digit_def)
  have v: "spelled (js ''005'') = 5" by (simp add: js_def)
  have i5: "user_id ?u5 = int 5" and i14: "user_id ?u14 = int 14"
    and iz: "user_id ?u5 = spelled (js ''005'')"
    by (simp_all add: seed_user_def v)
  have g1: "get_user (decimal 5 @ js ''abc'') ?d = (Inr ?u5, ?d)"
    and p1: "parseInt (decimal 5 @ js ''abc'') = Some (int 5)"
    using get_user_numeric_prefix [OF r1, of 5 ?u5 ?d "[]"] seed_member_5 i5 seed_distinct
    by blast+
  have g2: "get_user (decimal 5 @ js ''.9'') ?d = (Inr ?u5, ?d)"
    and p2: "parseInt (decimal 5 @ js ''.9'') = Some (int 5)"
    using get_user_numeric_prefix [OF r2, of 5 ?u5 ?d "[]"] seed_member_5 i5 seed_distinct
    by blast+
  have g3: "get_user (decimal 14 @ js ''th'') ?d = (Inr ?u14, ?d)"
    and p3: "parseInt (decimal 14 @ js ''th'') = Some (int 14)"
    using get_user_numeric_prefix [OF r3, of 14 ?u14 ?d "[]"] seed_member_14 i14 seed_distinct
    by blast+
  have g4: "get_user (js ''005'' @ js ''x'') ?d = (Inr ?u5, ?d)"
    and p4: "parseInt (js ''005'' @ js ''x'') = Some (spelled (js ''005''))"
    using get_user_numeric_prefix [OF r4, of 0 ?u5 ?d "js ''005''"] seed_member_5 iz
      seed_distinct z
    by blast+
  from g1 g2 g3 g4 p1 p2 p3 p4 show ?thesis unfolding s v by simp
qed

section \<open>Create, then look up\<close>

lemma records_from_ids:
  "u \<in> set (records_from i ps) \<Longrightarrow> i \<le> user_id u \<and> user_id u < i + int (length ps)"
proof (induction ps arbitrary: i)
  case Nil
  then show ?case by simp
next
  case (Cons p ps)
  then show ?case by (fastforce simp: newUser_def)
qed

lemma find_by_id_append_new:
  "\<forall>u\<in>set us. user_id u \<noteq> i \<Longrightarrow> user_id x = i \<Longrightarrow> find_by_id (Some i) (us @ [x]) = Some x"
  by (induction us) (simp_all add: find_by_id_def matches_id_def)

lemma reachable_ids_below:
  assumes "\<forall>u\<in>set seed. user_id u \<le> int (length seed)"
    and "serve_all qs (init_db seed) = (rs, d)"
  shows "\<forall>u\<in>set (users d). user_id u < uuid d"
proof
  fix u assume u: "u \<in> set (users d)"
  from serve_all_shape [OF assms(2)]
  have us: "users d = seed @ records_from (int (length seed) + 1) (accepted qs)"
    and c: "uuid d = int (length seed) + 1 + int (length (accepted qs))"
    by (simp_all add: init_db_def)
  from u us consider "u \<in> set seed"
    | "u \<in> set (records_from (int (length seed) + 1) (accepted qs))" by auto
  then show "user_id u < uuid d"
  proof cases
    case 1
    with assms(1) c show ?thesis by fastforce
  next
    case 2
    from records_from_ids [OF 2] c show ?thesis by simp
  qed
qed

lemma seed_ids_small: "\<forall>u\<in>set initUserCollection. user_id u \<le> int (length initUserCollection)"
proof -
  have "\<forall>i\<in>set (map user_id initUserCollection). i \<le> 14" unfolding seed_ids by simp
  then show ?thesis by (simp add: length_seed)
qed

lemma round_trip_from_seed:
  assumes seed: "\<forall>u\<in>set seed. user_id u \<le> int (length seed)"
    and run: "serve_all qs (init_db seed) = (rs, d)"
    and post: "post_user p d = (Inr (m, i), d')"
  shows "find_by_id (Some i) (users d') = Some (newUser i p)"
proof (cases "joi_validate userPostRequestSchema p")
  case (Inl e)
  with post show ?thesis by (simp add: post_user_invalid)
next
  case (Inr v)
  from post post_user_valid [OF Inr, of d]
  have i: "i = uuid d" and d': "users d' = users d @ [newUser (uuid d) p]" by auto
  from reachable_ids_below [OF seed run] have "\<forall>u\<in>set (users d). user_id u \<noteq> uuid d"
    by fastforce
  then show ?thesis unfolding i d' by (rule find_by_id_append_new) (simp add: newUser_def)
qed

lemma Ada_record:
  "newUser i Ada_UK = \<lparr>user_id = i, first_name = Some (JStr (js ''Ada'')), last_name = None,
     city = None, country = Some (JStr (js ''UK''))\<rparr>"
  by (simp add: newUser_def Ada_UK_def property_def js_def)

text \<open>
  C3. In every state that the seeded server can reach, a successful create with payload
  \<open>p\<close> that returns the id \<open>i\<close> is followed by a store in which the lookup of \<open>i\<close> finds
  exactly the record made of \<open>i\<close> and the fields of \<open>p\<close>, and the lookup route returns it
  for a segment that reads as \<open>i\<close>. On the fresh seed of 14 records, creating
  \<open>{first_name: "Ada", country: "UK"}\<close> returns id 15, and the lookup of \<open>15\<close> returns the
  record whose JSON body has the members \<open>id\<close>, \<open>first_name\<close> and \<open>country\<close> only.
\<close>

theorem created_record_round_trip:
  "serve_all qs (init_db initUserCollection) = (rs, d) \<Longrightarrow>
   post_user p d = (Inr (m, i), d') \<Longrightarrow>
   find_by_id (Some i) (users d') = Some (newUser i p) \<and>
   (parseInt s = Some i \<longrightarrow> get_user s d' = (Inr (newUser i p), d')) \<and>
   post_user Ada_UK (init_db initUserCollection) =
     (Inr (js ''user created'', 15),
      \<lparr>users = initUserCollection @ [newUser 15 Ada_UK], uuid = 16\<rparr>) \<and>
   get_user (js ''15'') \<lparr>users = initUserCollection @ [newUser 15 Ada_UK], uuid = 16\<rparr> =
     (Inr \<lparr>user_id = 15, first_name = Some (JStr (js ''Ada'')), last_name = None,
           city = None, country = Some (JStr (js ''UK''))\<rparr>,
      \<lparr>users = initUserCollection @ [newUser 15 Ada_UK], uuid = 16\<rparr>) \<and>
   json_of_user \<lparr>user_id = 15, first_name = Some (JStr (js ''Ada'')), last_name = None,
       city = None, country = Some (JStr (js ''UK''))\<rparr> =
     [(js ''id'', JNum 15), (js ''first_name'', JStr (js ''Ada'')), (js ''country'', JStr (js ''UK''))]"
proof -
  assume run: "serve_all qs (init_db initUserCollection) = (rs, d)"
    and post: "post_user p d = (Inr (m, i), d')"
  note f = round_trip_from_seed [OF seed_ids_small run post]
  have g: "get_user s d' = (Inr (newUser i p), d')" if "parseInt s = Some i"
    using that f by (simp add: get_user_found)
  have run0: "serve_all [] (init_db initUserCollection) = ([], init_db initUserCollection)"
    by simp
  have post0: "post_user Ada_UK (init_db initUserCollection) =
     (Inr (js ''user created'', 15),
      \<lparr>users = initUserCollection @ [newUser 15 Ada_UK], uuid = 16\<rparr>)"
    by (simp add: post_user_valid [OF Ada_UK_valid] init_db_def length_seed)
  from round_trip_from_seed [OF seed_ids_small run0 post0]
  have "get_user (js ''15'') \<lparr>users = initUserCollection @ [newUser 15 Ada_UK], uuid = 16\<rparr> =
     (Inr (newUser 15 Ada_UK), \<lparr>users = initUserCollection @ [newUser 15 Ada_UK], uuid = 16\<rparr>)"
    by (simp add: get_user_found parseInt_15)
  then have get0: "get_user (js ''15'')
       \<lparr>users = initUserCollection @ [newUser 15 Ada_UK], uuid = 16\<rparr> =
     (Inr \<lparr>user_id = 15, first_name = Some (JStr (js ''Ada'')), last_name = None,
           city = None, country = Some (JStr (js ''UK''))\<rparr>,
      \<lparr>users = initUserCollection @ [newUser 15 Ada_UK], uuid = 16\<rparr>)"
    by (simp only: Ada_record [of 15])
  have body: "json_of_user \<lparr>user_id = 15, first_name = Some (JStr (js ''Ada'')), last_name = None,
       city = None, country = Some (JStr (js ''UK''))\<rparr> =
     [(js ''id'', JNum 15), (js ''first_name'', JStr (js ''Ada'')), (js ''country'', JStr (js ''UK''))]"
    by (simp add: json_of_user_def member_of_def)
  from f g post0 get0 body show ?thesis by blast
qed

theorem created_record_round_trip_witness:
  "post_user Ada_UK \<lparr>users = initUserCollection @ [newUser 15 Ada_UK, newUser 16 Ada_UK], uuid = 17\<rparr> =
     (Inr (js ''user created'', 17),
      \<lparr>users = initUserCollection @ [newUser 15 Ada_UK, newUser 16 Ada_UK, newUser 17 Ada_UK],
        uuid = 18\<rparr>) \<and>
   find_by_id (Some 17)
     (initUserCollection @ [newUser 15 Ada_UK, newUser 16 Ada_UK, newUser 17 Ada_UK]) =
     Some (newUser 17 Ada_UK) \<and>
   get_user (js ''17'')
     \<lparr>users = initUserCollection @ [newUser 15 Ada_UK, newUser 16 Ada_UK, newUser 17 Ada_UK],
       uuid = 18\<rparr> =
     (Inr (newUser 17 Ada_UK),
      \<lparr>users = initUserCollection @ [newUser 15 Ada_UK, newUser 16 Ada_UK, newUser 17 Ada_UK],
        uuid = 18\<rparr>)"
proof -
  have post: "post_user Ada_UK
      \<lparr>users = initUserCollection @ [newUser 15 Ada_UK, newUser 16 Ada_UK], uuid = 17\<rparr> =
     (Inr (js ''user created'', 17),
      \<lparr>users = initUserCollection @ [newUser 15 Ada_UK, newUser 16 Ada_UK, newUser 17 Ada_UK],
        uuid = 18\<rparr>)"
    by (simp add: post_user_valid [OF Ada_UK_valid])
  from created_record_round_trip [OF scenario_run post, of "js ''17''"] post parseInt_17
  show ?thesis by simp
qed

section \<open>Validation\<close>

lemma joi_validate_rejects:
  "\<not> (rules_hold p \<and> fst ` set p \<subseteq> known_keys) \<Longrightarrow>
   \<exists>e. joi_validate userPostRequestSchema p = Inl e"
proof (cases "joi_validate userPostRequestSchema p")
  case (Inl e)
  then show ?thesis by simp
next
  case (Inr v)
  assume n: "\<not> (rules_hold p \<and> fst ` set p \<subseteq> known_keys)"
  from Inr joi_validate_Inr [OF Inr] have "joi_validate userPostRequestSchema p = Inr p" by simp
  with n show ?thesis by (simp add: joi_validate_accepts)
qed

lemmas payload_eval = property_def js_def string_of_length_def known_keys_def rules_hold_def

text \<open>
  C6. With the other fields valid, a \<open>first_name\<close> of length 3 or 64 is accepted; a
  \<open>first_name\<close> of length 2 is rejected (too short) and one of length 65 is rejected (too
  long), whatever the other fields are; a payload without \<open>country\<close> is rejected; a payload
  without \<open>last_name\<close> and \<open>city\<close> whose \<open>first_name\<close> and \<open>country\<close> are valid is
  accepted.
\<close>

theorem validation_boundaries:
  "(property p (js ''first_name'') = Some (JStr s) \<and> (length s = 3 \<or> length s = 64) \<and>
      (property p (js ''last_name'') = None \<or>
         string_of_length 3 64 (property p (js ''last_name''))) \<and>
      (property p (js ''city'') = None \<or> string_of_length 1 64 (property p (js ''city''))) \<and>
      string_of_length 1 64 (property p (js ''country'')) \<and> fst ` set p \<subseteq> known_keys
    \<longrightarrow> joi_validate userPostRequestSchema p = Inr p) \<and>
   (property p (js ''first_name'') = Some (JStr s) \<and> length s = 2
    \<longrightarrow> joi_validate userPostRequestSchema p = Inl (string_min (js ''first_name'') 3)) \<and>
   (property p (js ''first_name'') = Some (JStr s) \<and> length s = 65
    \<longrightarrow> joi_validate userPostRequestSchema p = Inl (string_max (js ''first_name'') 64)) \<and>
   (property p (js ''country'') = None
    \<longrightarrow> (\<exists>e. joi_validate userPostRequestSchema p = Inl e)) \<and>
   (string_of_length 3 64 (property p (js ''first_name'')) \<and>
      property p (js ''last_name'') = None \<and> property p (js ''city'') = None \<and>
      string_of_length 1 64 (property p (js ''country'')) \<and> fst ` set p \<subseteq> known_keys
    \<longrightarrow> joi_validate userPostRequestSchema p = Inr p)"
proof -
  have ok: "joi_validate userPostRequestSchema p = Inr p"
    if "property p (js ''first_name'') = Some (JStr s)" "length s = 3 \<or> length s = 64"
      "property p (js ''last_name'') = None \<or> string_of_length 3 64 (property p (js ''last_name''))"
      "property p (js ''city'') = None \<or> string_of_length 1 64 (property p (js ''city''))"
      "string_of_length 1 64 (property p (js ''country''))" "fst ` set p \<subseteq> known_keys"
  proof -
    from that(1,2) have "string_of_length 3 64 (property p (js ''first_name''))"
      by (auto simp: string_of_length_def)
    with that(3-6) show ?thesis by (simp add: joi_validate_accepts rules_hold_def)
  qed
  have short: "joi_validate userPostRequestSchema p = Inl (string_min (js ''first_name'') 3)"
    if "property p (js ''first_name'') = Some (JStr s)" "length s = 2"
    using that by (intro joi_validate_first_error) auto
  have long: "joi_validate userPostRequestSchema p = Inl (string_max (js ''first_name'') 64)"
    if "property p (js ''first_name'') = Some (JStr s)" "length s = 65"
    using that by (intro joi_validate_first_error) auto
  have nocountry: "\<exists>e. joi_validate userPostRequestSchema p = Inl e"
    if "property p (js ''country'') = None"
    using that by (intro joi_validate_rejects) (simp add: rules_hold_def string_of_length_def)
  have omitted: "joi_validate userPostRequestSchema p = Inr p"
    if "string_of_length 3 64 (property p (js ''first_name''))"
      "property p (js ''last_name'') = None" "property p (js ''city'') = None"
      "string_of_length 1 64 (property p (js ''country''))" "fst ` set p \<subseteq> known_keys"
    using that by (simp add: joi_validate_accepts rules_hold_def)
  from ok short long nocountry omitted show ?thesis by blast
qed

theorem validation_boundaries_witness:
  "joi_validate userPostRequestSchema Ada_UK = Inr Ada_UK \<and>
   joi_validate userPostRequestSchema
     [(js ''first_name'', JStr (replicate 64 97)), (js ''country'', JStr (js ''UK''))] =
     Inr [(js ''first_name'', JStr (replicate 64 97)), (js ''country'', JStr (js ''UK''))] \<and>
   joi_validate userPostRequestSchema Al_US = Inl (string_min (js ''first_name'') 3) \<and>
   joi_validate userPostRequestSchema
     [(js ''first_name'', JStr (replicate 65 97)), (js ''country'', JStr (js ''UK''))] =
     Inl (string_max (js ''first_name'') 64) \<and>
   (\<exists>e. joi_validate userPostRequestSchema [(js ''first_name'', JStr (js ''Ada''))] = Inl e)"
proof -
  have "joi_validate userPostRequestSchema Ada_UK = Inr Ada_UK"
    using validation_boundaries [of Ada_UK "js ''Ada''"]
    by (simp add: Ada_UK_def payload_eval)
  moreover have "joi_validate userPostRequestSchema
     [(js ''first_name'', JStr (replicate 64 97)), (js ''country'', JStr (js ''UK''))] =
     Inr [(js ''first_name'', JStr (replicate 64 97)), (js ''country'', JStr (js ''UK''))]"
    using validation_boundaries [of
        "[(js ''first_name'', JStr (replicate 64 97)), (js ''country'', JStr (js ''UK''))]"
        "replicate 64 97"]
    by (simp add: payload_eval)
  moreover have "joi_validate userPostRequestSchema Al_US =
      Inl (string_min (js ''first_name'') 3)"
    using validation_boundaries [of Al_US "js ''Al''"]
    by (simp add: Al_US_def payload_eval)
  moreover have "joi_validate userPostRequestSchema
     [(js ''first_name'', JStr (replicate 65 97)), (js ''country'', JStr (js ''UK''))] =
     Inl (string_max (js ''first_name'') 64)"
    using validation_boundaries [of
        "[(js ''first_name'', JStr (replicate 65 97)), (js ''country'', JStr (js ''UK''))]"
        "replicate 65 97"]
    by (simp add: payload_eval)
  moreover have "\<exists>e. joi_validate userPostRequestSchema
      [(js ''first_name'', JStr (js ''Ada''))] = Inl e"
    using validation_boundaries [of "[(js ''first_name'', JStr (js ''Ada''))]" "js ''Ada''"]
    by (simp add: payload_eval)
  ultimately show ?thesis by blast
qed

text \<open>
  C2, as stated, fails: the payload \<open>{first_name: "Ada", country: "UK", age: 36}\<close>
  satisfies the four rules and is rejected on account of the key \<open>age\<close>, while the same
  payload without that key is accepted.
\<close>

theorem unknown_key_is_rejected:
  "rules_hold (Ada_UK @ [(js ''age'', JNum 36)]) \<and>
   joi_validate userPostRequestSchema (Ada_UK @ [(js ''age'', JNum 36)]) =
     Inl (object_unknown (js ''age'')) \<and>
   joi_validate userPostRequestSchema Ada_UK = Inr Ada_UK"
proof -
  have r: "rules_hold (Ada_UK @ [(js ''age'', JNum 36)])"
    by (simp add: Ada_UK_def payload_eval)
  then have "validate_keys userPostRequestSchema (Ada_UK @ [(js ''age'', JNum 36)]) = None"
    by (simp add: validate_keys_rules)
  moreover have "unprocessed userPostRequestSchema (Ada_UK @ [(js ''age'', JNum 36)]) =
      [js ''age'']"
    by (simp add: unprocessed_def userPostRequestSchema_def Ada_UK_def js_def)
  ultimately have "joi_validate userPostRequestSchema (Ada_UK @ [(js ''age'', JNum 36)]) =
     Inl (object_unknown (js ''age''))"
    by (simp add: joi_validate_def)
  with r Ada_UK_valid show ?thesis by simp
qed

lemma unprocessed_known:
  "unprocessed userPostRequestSchema p = filter (\<lambda>k. k \<notin> known_keys) (map fst p)"
  unfolding unprocessed_def schema_keys ..

lemma joi_validate_first_unknown:
  assumes "rules_hold p" and "\<not> fst ` set p \<subseteq> known_keys"
  shows "joi_validate userPostRequestSchema p =
    Inl (object_unknown (hd (filter (\<lambda>k. k \<notin> known_keys) (map fst p))))"
proof -
  from assms(2) obtain k ks where u: "unprocessed userPostRequestSchema p = k # ks"
    unfolding unprocessed_Nil [symmetric] by (cases "unprocessed userPostRequestSchema p") auto
  from assms(1) have "validate_keys userPostRequestSchema p = None"
    by (simp add: validate_keys_rules)
  with u have "joi_validate userPostRequestSchema p = Inl (object_unknown k)"
    by (simp add: joi_validate_def)
  moreover from u have "hd (filter (\<lambda>k. k \<notin> known_keys) (map fst p)) = k"
    by (simp add: unprocessed_known [symmetric])
  ultimately show ?thesis by simp
qed

text \<open>
  C2, amended. The validator accepts a payload exactly when the four known fields satisfy
  their rules and the payload has no key outside \<open>first_name\<close>, \<open>last_name\<close>, \<open>city\<close>,
  \<open>country\<close>, and it hands an accepted payload on unchanged. Every payload with a key
  outside that set is rejected, and so is every payload that breaks a rule. When the
  known fields satisfy their rules and such a key is present, the failure is
  \<open>object.unknown\<close> for the first key of the payload outside the set.
\<close>

theorem validator_accepts_exactly:
  "((\<exists>v. joi_validate userPostRequestSchema p = Inr v) \<longleftrightarrow>
      rules_hold p \<and> fst ` set p \<subseteq> known_keys) \<and>
   (joi_validate userPostRequestSchema p = Inr v \<longrightarrow> v = p) \<and>
   (\<not> fst ` set p \<subseteq> known_keys \<longrightarrow> (\<exists>e. joi_validate userPostRequestSchema p = Inl e)) \<and>
   (\<not> rules_hold p \<longrightarrow> (\<exists>e. joi_validate userPostRequestSchema p = Inl e)) \<and>
   (rules_hold p \<and> \<not> fst ` set p \<subseteq> known_keys \<longrightarrow>
      joi_validate userPostRequestSchema p =
        Inl (object_unknown (hd (filter (\<lambda>k. k \<notin> known_keys) (map fst p)))))"
proof -
  have acc: "(\<exists>v. joi_validate userPostRequestSchema p = Inr v) \<longleftrightarrow>
      rules_hold p \<and> fst ` set p \<subseteq> known_keys"
  proof
    assume "\<exists>v. joi_validate userPostRequestSchema p = Inr v"
    then obtain w where w: "joi_validate userPostRequestSchema p = Inr w" ..
    from w joi_validate_Inr [OF w] have "joi_validate userPostRequestSchema p = Inr p" by simp
    then show "rules_hold p \<and> fst ` set p \<subseteq> known_keys" by (simp add: joi_validate_accepts)
  next
    assume "rules_hold p \<and> fst ` set p \<subseteq> known_keys"
    then have "joi_validate userPostRequestSchema p = Inr p" by (simp add: joi_validate_accepts)
    then show "\<exists>v. joi_validate userPostRequestSchema p = Inr v" ..
  qed
  have same: "v = p" if "joi_validate userPostRequestSchema p = Inr v"
    using that by (rule joi_validate_Inr)
  have unk: "\<exists>e. joi_validate userPostRequestSchema p = Inl e" if "\<not> fst ` set p \<subseteq> known_keys"
    using that by (intro joi_validate_rejects) simp
  have bad: "\<exists>e. joi_validate userPostRequestSchema p = Inl e" if "\<not> rules_hold p"
    using that by (intro joi_validate_rejects) simp
  from acc same unk bad joi_validate_first_unknown [of p] show ?thesis by blast
qed

theorem validator_accepts_exactly_witness:
  "joi_validate userPostRequestSchema (Ada_UK @ [(js ''age'', JNum 36)]) =
     Inl (object_unknown (js ''age'')) \<and>
   (\<exists>e. joi_validate userPostRequestSchema (Al_US @ [(js ''age'', JNum 36)]) = Inl e) \<and>
   (\<exists>e. joi_validate userPostRequestSchema Al_US = Inl e) \<and>
   (\<exists>v. joi_validate userPostRequestSchema Ada_UK = Inr v)"
proof -
  have a: "rules_hold (Ada_UK @ [(js ''age'', JNum 36)])"
    "\<not> fst ` set (Ada_UK @ [(js ''age'', JNum 36)]) \<subseteq> known_keys"
    "\<not> fst ` set (Al_US @ [(js ''age'', JNum 36)]) \<subseteq> known_keys"
    "\<not> rules_hold Al_US"
    "rules_hold Ada_UK" "fst ` set Ada_UK \<subseteq> known_keys"
    by (simp_all add: Ada_UK_def Al_US_def payload_eval)
  have h: "hd (filter (\<lambda>k. k \<notin> known_keys) (map fst (Ada_UK @ [(js ''age'', JNum 36)]))) =
      js ''age''"
    by (simp add: Ada_UK_def known_keys_def js_def)
  from validator_accepts_exactly [of "Ada_UK @ [(js ''age'', JNum 36)]"] a(1,2)
  have "joi_validate userPostRequestSchema (Ada_UK @ [(js ''age'', JNum 36)]) =
     Inl (object_unknown (js ''age''))"
    unfolding h by blast
  moreover from validator_accepts_exactly [of "Al_US @ [(js ''age'', JNum 36)]"] a(3)
  have "\<exists>e. joi_validate userPostRequestSchema (Al_US @ [(js ''age'', JNum 36)]) = Inl e"
    by blast
  moreover from validator_accepts_exactly [of Al_US] a(4)
  have "\<exists>e. joi_validate userPostRequestSchema Al_US = Inl e" by blast
  moreover from validator_accepts_exactly [of Ada_UK] a(5,6)
  have "\<exists>v. joi_validate userPostRequestSchema Ada_UK = Inr v" by blast
  ultimately show ?thesis by blast
qed

end
